theory Spec2Isabelle
  imports Complex_Main "HOL-Library.Char_ord" "HOL-Library.List_Lexorder" "HOL-Library.Log_Nat"
begin

section \<open>Text and numbers of the host language\<close>

text \<open>
  Cells and column names are JavaScript strings. They are modelled as \<^typ>\<open>string\<close>:
  sequences of code units below 256 (the Latin-1 range), which holds every character the
  source tests for, the no-break space \<open>U+00A0\<close> included. Whitespace is the set that
  \<open>String.prototype.trim\<close> and the regular-expression class \<open>\s\<close> share in that range.
\<close>

definition isSpace :: "char \<Rightarrow> bool" where
  "isSpace c = (of_char c \<in> {9, 10, 11, 12, 13, 32, 160 :: nat})"

definition isDigit :: "char \<Rightarrow> bool" where
  "isDigit c = (48 \<le> (of_char c :: nat) \<and> (of_char c :: nat) \<le> 57)"

definition digitVal :: "char \<Rightarrow> int" where
  "digitVal c = of_char c - 48"

definition trim :: "string \<Rightarrow> string" where
  "trim s = rev (dropWhile isSpace (rev (dropWhile isSpace s)))"

text \<open>\<open>s.replace(/[...]/g, '')\<close> deletes every character of a class.\<close>

definition deleteChars :: "(char \<Rightarrow> bool) \<Rightarrow> string \<Rightarrow> string" where
  "deleteChars p s = filter (\<lambda>c. \<not> p c) s"

text \<open>
  A thrown value: \<^verbatim>\<open>toISOString\<close> throws a \<^verbatim>\<open>RangeError\<close> on an invalid date, and
  \<^verbatim>\<open>Error\<close> carries the message of a \<^verbatim>\<open>throw new Error(message)\<close>.
\<close>

datatype js_error = RangeError | Error string

text \<open>
  A JavaScript number is a binary64 value: a finite value, given here by the rational
  it denotes, one of the two infinities, or \<open>NaN\<close>. The sign of zero is not modelled: it
  shows only in a division by zero, and no divisor of the source can be a negative zero
  (the ratios test their divisor for truthiness, the number of operating days is positive
  and the number of calendar days is a rounded value plus 1).
\<close>

datatype jsnum = Fin rat | PosInf | NegInf | NaN

definition isFinite :: "jsnum \<Rightarrow> bool" where
  "isFinite x = (case x of Fin _ \<Rightarrow> True | _ \<Rightarrow> False)"

definition jsneg :: "jsnum \<Rightarrow> jsnum" where
  "jsneg x = (case x of Fin r \<Rightarrow> Fin (- r) | PosInf \<Rightarrow> NegInf | NegInf \<Rightarrow> PosInf | NaN \<Rightarrow> NaN)"

text \<open>
  Rounding of a real value to binary64, to the nearest value and to the even significand
  on a tie. \<open>expo2 a\<close> is the binary exponent of \<open>a > 0\<close> (\<open>2 ^ e \<le> a < 2 ^ (e + 1)\<close>),
  found from the bit lengths of numerator and denominator; \<open>ulp64 a\<close> is the spacing of
  the binary64 values around \<open>a\<close> (53 significant bits, the smallest exponent -1022).
  A value that rounds to \<open>2 ^ 1024\<close> or beyond gives an infinity, a value that rounds to
  less than the smallest subnormal gives 0.
\<close>

definition pow2 :: "int \<Rightarrow> rat" where
  "pow2 e = 2 powi e"

definition expo2 :: "rat \<Rightarrow> int" where
  "expo2 a =
     (if pow2 (bitlen (fst (quotient_of a)) - bitlen (snd (quotient_of a))) \<le> a
      then bitlen (fst (quotient_of a)) - bitlen (snd (quotient_of a))
      else bitlen (fst (quotient_of a)) - bitlen (snd (quotient_of a)) - 1)"

definition roundHalfEven :: "rat \<Rightarrow> int" where
  "roundHalfEven r =
     (if r - of_int \<lfloor>r\<rfloor> < 1 / 2 then \<lfloor>r\<rfloor>
      else if 1 / 2 < r - of_int \<lfloor>r\<rfloor> then \<lfloor>r\<rfloor> + 1
      else if even \<lfloor>r\<rfloor> then \<lfloor>r\<rfloor> else \<lfloor>r\<rfloor> + 1)"

definition ulp64 :: "rat \<Rightarrow> rat" where
  "ulp64 a = pow2 (max (expo2 a) (- 1022) - 52)"

definition round64 :: "rat \<Rightarrow> jsnum" where
  "round64 x =
     (if x = 0 then Fin 0
      else if 1024 \<le> expo2 \<bar>x\<bar>
              \<or> (expo2 \<bar>x\<bar> = 1023 \<and> 9007199254740992 \<le> roundHalfEven (\<bar>x\<bar> / ulp64 \<bar>x\<bar>))
      then (if 0 < x then PosInf else NegInf)
      else Fin (sgn x * of_int (roundHalfEven (\<bar>x\<bar> / ulp64 \<bar>x\<bar>)) * ulp64 \<bar>x\<bar>))"

text \<open>
  The arithmetic and the comparisons of the host language: a finite result is rounded to
  binary64 and may overflow to an infinity, a division by zero gives an infinity or \<open>NaN\<close>,
  every comparison with \<open>NaN\<close> is false, and \<open>0\<close> and \<open>NaN\<close> are the falsy numbers.
\<close>

definition jsadd :: "jsnum \<Rightarrow> jsnum \<Rightarrow> jsnum" where
  "jsadd a b =
     (case (a, b) of
        (NaN, _) \<Rightarrow> NaN
      | (_, NaN) \<Rightarrow> NaN
      | (Fin x, Fin y) \<Rightarrow> round64 (x + y)
      | (Fin x, _) \<Rightarrow> b
      | (_, Fin y) \<Rightarrow> a
      | (_, _) \<Rightarrow> if a = b then a else NaN)"

definition jssub :: "jsnum \<Rightarrow> jsnum \<Rightarrow> jsnum" where
  "jssub a b = jsadd a (jsneg b)"

definition jsdiv :: "jsnum \<Rightarrow> jsnum \<Rightarrow> jsnum" where
  "jsdiv a b =
     (case (a, b) of
        (NaN, _) \<Rightarrow> NaN
      | (_, NaN) \<Rightarrow> NaN
      | (Fin x, Fin y) \<Rightarrow>
          if y \<noteq> 0 then round64 (x / y) else if x = 0 then NaN else if 0 < x then PosInf else NegInf
      | (Fin x, _) \<Rightarrow> Fin 0
      | (PosInf, Fin y) \<Rightarrow> if 0 \<le> y then PosInf else NegInf
      | (NegInf, Fin y) \<Rightarrow> if 0 \<le> y then NegInf else PosInf
      | (_, _) \<Rightarrow> NaN)"

definition jsmul :: "jsnum \<Rightarrow> jsnum \<Rightarrow> jsnum" where
  "jsmul a b =
     (case (a, b) of
        (NaN, _) \<Rightarrow> NaN
      | (_, NaN) \<Rightarrow> NaN
      | (Fin x, Fin y) \<Rightarrow> round64 (x * y)
      | (Fin x, PosInf) \<Rightarrow> if x = 0 then NaN else if 0 < x then PosInf else NegInf
      | (Fin x, NegInf) \<Rightarrow> if x = 0 then NaN else if 0 < x then NegInf else PosInf
      | (PosInf, Fin y) \<Rightarrow> if y = 0 then NaN else if 0 < y then PosInf else NegInf
      | (NegInf, Fin y) \<Rightarrow> if y = 0 then NaN else if 0 < y then NegInf else PosInf
      | (PosInf, PosInf) \<Rightarrow> PosInf
      | (NegInf, NegInf) \<Rightarrow> PosInf
      | (_, _) \<Rightarrow> NegInf)"

definition jsless :: "jsnum \<Rightarrow> jsnum \<Rightarrow> bool" where
  "jsless a b =
     (case (a, b) of
        (NaN, _) \<Rightarrow> False
      | (_, NaN) \<Rightarrow> False
      | (Fin x, Fin y) \<Rightarrow> x < y
      | (NegInf, NegInf) \<Rightarrow> False
      | (NegInf, _) \<Rightarrow> True
      | (_, PosInf) \<Rightarrow> b \<noteq> a
      | (_, _) \<Rightarrow> False)"

definition jsge :: "jsnum \<Rightarrow> jsnum \<Rightarrow> bool" where
  "jsge a b = (a \<noteq> NaN \<and> b \<noteq> NaN \<and> \<not> jsless a b)"

definition truthyNum :: "jsnum \<Rightarrow> bool" where
  "truthyNum x = (x \<noteq> Fin 0 \<and> x \<noteq> NaN)"

text \<open>\<^verbatim>\<open>Math.round\<close>: the nearest integer, a tie going up; the result is a binary64 value.\<close>

definition mathRound :: "jsnum \<Rightarrow> jsnum" where
  "mathRound x = (case x of Fin r \<Rightarrow> Fin (of_int \<lfloor>r + 1 / 2\<rfloor>) | _ \<Rightarrow> x)"

lemma pow2_pos [simp]: "0 < pow2 e"
  by (simp add: pow2_def)

lemma pow2_add: "pow2 (a + b) = pow2 a * pow2 b"
  by (simp add: pow2_def power_int_add)

lemma pow2_nat: "pow2 (int n) = 2 ^ n"
  by (simp add: pow2_def)

lemma pow2_mono: "a \<le> b \<Longrightarrow> pow2 a \<le> pow2 b"
  by (simp add: pow2_def power_int_increasing)

lemma pow2_less_imp: "pow2 a < pow2 b \<Longrightarrow> a < b"
  using pow2_mono [of b a] by (cases "a < b") auto

lemma expo2_bounds:
  assumes "0 < a"
  shows "pow2 (expo2 a) \<le> a" and "a < pow2 (expo2 a + 1)"
proof -
  define p q where "p = fst (quotient_of a)" and "q = snd (quotient_of a)"
  have pq: "quotient_of a = (p, q)" by (simp add: p_def q_def)
  have q: "0 < q" using quotient_of_denom_pos [OF pq] .
  have a: "a = of_int p / of_int q" using quotient_of_div [OF pq] .
  have p: "0 < p" using assms q unfolding a by (simp add: zero_less_divide_iff)
  have bp: "2 ^ nat (bitlen p - 1) \<le> p" "p < 2 ^ nat (bitlen p)" using bitlen_bounds [OF p] by simp_all
  have bq: "2 ^ nat (bitlen q - 1) \<le> q" "q < 2 ^ nat (bitlen q)" using bitlen_bounds [OF q] by simp_all
  have lp: "1 \<le> bitlen p" using p bitlen_eq_zero_iff [of p] bitlen_nonneg [of p] by linarith
  have lq: "1 \<le> bitlen q" using q bitlen_eq_zero_iff [of q] bitlen_nonneg [of q] by linarith
  have lo: "pow2 (bitlen x - 1) \<le> of_int x" if "2 ^ nat (bitlen x - 1) \<le> x" "1 \<le> bitlen x" for x
  proof -
    have "pow2 (bitlen x - 1) = pow2 (int (nat (bitlen x - 1)))" using that(2) by simp
    also have "\<dots> = of_int (2 ^ nat (bitlen x - 1))" by (simp only: pow2_nat) simp
    also have "\<dots> \<le> of_int x" using that(1) by (simp only: of_int_le_iff)
    finally show ?thesis .
  qed
  have hi: "of_int x < pow2 (bitlen x)" if "x < 2 ^ nat (bitlen x)" for x
  proof -
    have "(of_int x :: rat) < of_int (2 ^ nat (bitlen x))" using that by (simp only: of_int_less_iff)
    also have "\<dots> = pow2 (int (nat (bitlen x)))" by (simp only: pow2_nat) simp
    also have "\<dots> = pow2 (bitlen x)" using bitlen_nonneg [of x] by simp
    finally show ?thesis .
  qed
  have low: "pow2 (bitlen p - bitlen q - 1) \<le> a"
  proof -
    have "pow2 (bitlen p - bitlen q - 1) * pow2 (bitlen q) = pow2 (bitlen p - 1)"
      by (simp add: pow2_add [symmetric])
    moreover have "pow2 (bitlen p - bitlen q - 1) * of_int q \<le> pow2 (bitlen p - bitlen q - 1) * pow2 (bitlen q)"
      using hi [OF bq(2)] less_imp_le [OF pow2_pos [of "bitlen p - bitlen q - 1"]]
      by (intro mult_left_mono) simp_all
    ultimately have "pow2 (bitlen p - bitlen q - 1) * of_int q \<le> of_int p"
      using lo [OF bp(1) lp] by linarith
    then show ?thesis unfolding a using q by (simp add: pos_le_divide_eq)
  qed
  have upp: "a < pow2 (bitlen p - bitlen q + 1)"
  proof -
    have "pow2 (bitlen p - bitlen q + 1) * pow2 (bitlen q - 1) = pow2 (bitlen p)"
      by (simp add: pow2_add [symmetric])
    moreover have "pow2 (bitlen p - bitlen q + 1) * pow2 (bitlen q - 1) \<le> pow2 (bitlen p - bitlen q + 1) * of_int q"
      using lo [OF bq(1) lq] less_imp_le [OF pow2_pos [of "bitlen p - bitlen q + 1"]]
      by (intro mult_left_mono) simp_all
    ultimately have "of_int p < pow2 (bitlen p - bitlen q + 1) * of_int q"
      using hi [OF bp(2)] by linarith
    then show ?thesis unfolding a using q by (simp add: pos_divide_less_eq)
  qed
  show "pow2 (expo2 a) \<le> a"
    using low by (simp add: expo2_def p_def q_def)
  show "a < pow2 (expo2 a + 1)"
    using upp by (auto simp: expo2_def p_def q_def not_le)
qed

lemma roundHalfEven_int [simp]: "roundHalfEven (of_int k) = k"
  by (simp add: roundHalfEven_def)

lemma round64_int:
  assumes "\<bar>n\<bar> < 2 ^ 53"
  shows "round64 (of_int n) = Fin (of_int n)"
proof (cases "n = 0")
  case True
  then show ?thesis by (simp add: round64_def)
next
  case False
  define a :: rat where "a = \<bar>of_int n\<bar>"
  have a0: "0 < a" using False by (simp add: a_def)
  have ab: "a < pow2 53"
  proof -
    have "a = of_int \<bar>n\<bar>" by (simp add: a_def)
    also have "\<dots> < of_int (2 ^ 53)" using assms by (simp only: of_int_less_iff)
    also have "\<dots> = pow2 (int 53)" by (simp only: pow2_nat) simp
    finally show ?thesis by simp
  qed
  have "pow2 (expo2 a) < pow2 53" using expo2_bounds(1) [OF a0] ab by simp
  then have e: "expo2 a < 53" by (rule pow2_less_imp)
  define k where "k = 52 - max (expo2 a) (- 1022)"
  have k0: "0 \<le> k" using e by (simp add: k_def)
  have u: "ulp64 a = 1 / 2 ^ nat k"
    using k0 by (simp add: ulp64_def k_def pow2_def power_int_def field_simps)
  have "a / ulp64 a = of_int (\<bar>n\<bar> * 2 ^ nat k)" unfolding u by (simp add: a_def)
  then have r: "roundHalfEven (a / ulp64 a) = \<bar>n\<bar> * 2 ^ nat k" by (simp only: roundHalfEven_int)
  have v: "of_int (roundHalfEven (a / ulp64 a)) * ulp64 a = a"
    unfolding r unfolding u by (simp add: a_def)
  have s: "sgn (of_int n :: rat) * a = of_int n" by (simp add: a_def sgn_if)
  have ne: "\<not> (1024 \<le> expo2 a \<or> (expo2 a = 1023 \<and> 9007199254740992 \<le> roundHalfEven (a / ulp64 a)))"
    using e by simp
  have nz: "(of_int n :: rat) \<noteq> 0" using False by simp
  have "round64 (of_int n) = Fin (sgn (of_int n) * of_int (roundHalfEven (a / ulp64 a)) * ulp64 a)"
    unfolding round64_def a_def [symmetric] using nz ne by (simp only: if_False)
  also have "\<dots> = Fin (of_int n)" using v s by (simp add: mult.assoc)
  finally show ?thesis .
qed

lemma round64_overflow: "pow2 1024 \<le> x \<Longrightarrow> round64 x = PosInf"
proof -
  assume x: "pow2 1024 \<le> x"
  have x0: "0 < x" using x pow2_pos [of 1024] by linarith
  have "pow2 1024 < pow2 (expo2 x + 1)" using expo2_bounds(2) [OF x0] x by linarith
  then have "1024 < expo2 x + 1" by (rule pow2_less_imp)
  then show ?thesis using x0 by (simp add: round64_def)
qed

lemma round64_not_NaN: "round64 x \<noteq> NaN"
  by (simp add: round64_def)

text \<open>
  \<open>Number.parseFloat\<close>: leading whitespace is skipped, then the longest prefix that is a
  decimal literal (optional sign, \<open>Infinity\<close>, or digits with an optional fraction and an
  optional exponent) gives the value, rounded to binary64; no such prefix gives \<open>NaN\<close>.
\<close>

definition decimalValue :: "string \<Rightarrow> int" where
  "decimalValue ds = foldl (\<lambda>acc c. 10 * acc + digitVal c) 0 ds"

definition startsWith :: "string \<Rightarrow> string \<Rightarrow> bool" where
  "startsWith s p = (take (length p) s = p)"

definition exponentPart :: "string \<Rightarrow> int" where
  "exponentPart s =
     (case s of
        [] \<Rightarrow> 0
      | e # r \<Rightarrow>
          if e = CHR ''e'' \<or> e = CHR ''E'' then
            (let (sgn, ds) =
               (case r of
                  [] \<Rightarrow> (1, [])
                | c # r' \<Rightarrow>
                    if c = CHR ''+'' then (1, takeWhile isDigit r')
                    else if c = CHR ''-'' then (- 1, takeWhile isDigit r')
                    else (1, takeWhile isDigit r))
             in if ds = [] then 0 else sgn * decimalValue ds)
          else 0)"

definition pow10 :: "int \<Rightarrow> rat" where
  "pow10 e = (if 0 \<le> e then 10 ^ nat e else 1 / 10 ^ nat (- e))"

definition unsignedLiteral :: "string \<Rightarrow> jsnum" where
  "unsignedLiteral s =
     (if startsWith s ''Infinity'' then PosInf
      else
        let ip = takeWhile isDigit s;
            r1 = dropWhile isDigit s;
            fp = (case r1 of [] \<Rightarrow> [] | c # r \<Rightarrow> if c = CHR ''.'' then takeWhile isDigit r else []);
            r2 = (case r1 of [] \<Rightarrow> [] | c # r \<Rightarrow> if c = CHR ''.'' then dropWhile isDigit r else r1)
        in if ip = [] \<and> fp = [] then NaN
           else round64 ((of_int (decimalValue ip) + of_int (decimalValue fp) / 10 ^ length fp)
                         * pow10 (exponentPart r2)))"

definition parseFloat :: "string \<Rightarrow> jsnum" where
  "parseFloat s =
     (case dropWhile isSpace s of
        [] \<Rightarrow> NaN
      | c # r \<Rightarrow>
          if c = CHR ''-'' then jsneg (unsignedLiteral r)
          else if c = CHR ''+'' then unsignedLiteral r
          else unsignedLiteral (c # r))"

section \<open>Cell normalizer\<close>

text \<open>The argument of \<open>parseNumber\<close> has type \<open>string | number | undefined\<close>.\<close>

datatype cell = Undefined | Number jsnum | Text string

text \<open>
  \<^verbatim>\<open>parseNumber\<close> returns 0 for \<^verbatim>\<open>undefined\<close>, the number itself (0 when it is not
  finite) for a number, and for a text: 0 when the trimmed text is empty, else the text
  with \<^verbatim>\<open>$\<close>, commas, whitespace, parentheses, \<^verbatim>\<open>%\<close> and no-break spaces deleted, read by
  \<^verbatim>\<open>Number.parseFloat\<close>, 0 when that is not finite. The result is a returned number or a
  thrown value.
\<close>

definition finiteOrZero :: "jsnum \<Rightarrow> jsnum" where
  "finiteOrZero x = (if isFinite x then x else Fin 0)"

definition normalizeNumberText :: "string \<Rightarrow> string" where
  "normalizeNumberText v =
     deleteChars (\<lambda>c. c = CHR 0xA0)
       (deleteChars (\<lambda>c. c = CHR ''%'')
          (deleteChars (\<lambda>c. c = CHR ''('' \<or> c = CHR '')'')
             (deleteChars (\<lambda>c. c = CHR ''$'' \<or> c = CHR '','' \<or> isSpace c) v)))"

definition parseNumber :: "cell \<Rightarrow> js_error + jsnum" where
  "parseNumber raw =
     (case raw of
        Undefined \<Rightarrow> Inr (Fin 0)
      | Number n \<Rightarrow> Inr (finiteOrZero n)
      | Text s \<Rightarrow>
          let v = trim s
          in if v = [] then Inr (Fin 0) else Inr (finiteOrZero (parseFloat (normalizeNumberText v))))"

text \<open>
  \<open>numberOfCell\<close> is the value \<open>parseNumber\<close> returns; by \<open>parseNumber_returns\<close> it always
  returns one, and a finite one, so the callers below use \<open>numberOfCell\<close>.
\<close>

definition numberOfCell :: "cell \<Rightarrow> jsnum" where
  "numberOfCell raw = (case parseNumber raw of Inr n \<Rightarrow> n | Inl e \<Rightarrow> Fin 0)"

lemma parseNumber_returns: "parseNumber raw = Inr (numberOfCell raw) \<and> isFinite (numberOfCell raw)"
  by (simp add: numberOfCell_def parseNumber_def finiteOrZero_def isFinite_def Let_def
      split: cell.splits)

lemmas number_eval = parseNumber_def trim_def isSpace_def normalizeNumberText_def deleteChars_def
  parseFloat_def unsignedLiteral_def startsWith_def isDigit_def decimalValue_def digitVal_def
  exponentPart_def pow10_def finiteOrZero_def isFinite_def jsneg_def

lemma pow10_999: "pow2 1024 \<le> pow10 999"
proof -
  have n: "nat 999 = 999" by simp
  have z: "(0::int) \<le> 999" by simp
  have i: "(1024::int) = int 1024" by simp
  have a: "(1024::nat) \<le> 3 * 342" by simp
  have b: "(342::nat) \<le> 999" by simp
  have c: "(2::rat) ^ 3 \<le> 10" "(0::rat) \<le> 2 ^ 3" "(1::rat) \<le> 2" "(1::rat) \<le> 10" by simp_all
  have "pow2 1024 = (2::rat) ^ 1024" by (subst i) (simp only: pow2_nat)
  also have "\<dots> \<le> 2 ^ (3 * 342)" using c(3) a by (rule power_increasing [rotated])
  also have "\<dots> = (2 ^ 3) ^ 342" by (simp only: power_mult)
  also have "\<dots> \<le> (10::rat) ^ 342" using c(1,2) by (rule power_mono)
  also have "\<dots> \<le> 10 ^ 999" using b c(4) by (rule power_increasing)
  also have "\<dots> = pow10 999" by (simp only: pow10_def n z if_True)
  finally show ?thesis .
qed

lemma parseFloat_overflow: "parseFloat ''1e999'' = PosInf"
proof -
  have "parseFloat ''1e999'' = round64 (1 * pow10 999)"
    by (simp add: parseFloat_def isSpace_def unsignedLiteral_def startsWith_def isDigit_def
        decimalValue_def digitVal_def exponentPart_def)
  then have "parseFloat ''1e999'' = round64 (pow10 999)" by (simp only: mult_1)
  then show ?thesis by (simp only: round64_overflow [OF pow10_999])
qed

text \<open>
  Claim C6: \<open>parseNumber\<close> never raises and returns a finite number for every argument; it
  returns 0 for an undefined cell, for an empty or blank text and for a text that does not
  parse to a finite number, such as a text without digits or one whose value overflows (a
  non-finite number argument also gives 0); \<open>parseNumber("$1,234.50") = 1234.5\<close>,
  \<open>parseNumber("(12.00)") = 12\<close> (the parentheses are deleted, the value is not negated)
  and \<open>parseNumber("12%") = 12\<close>.
\<close>

theorem parseNumber_spec:
  "(\<exists>r. parseNumber raw = Inr (Fin r))
   \<and> parseNumber Undefined = Inr (Fin 0)
   \<and> (trim s = [] \<longrightarrow> parseNumber (Text s) = Inr (Fin 0))
   \<and> (\<not> isFinite (parseFloat (normalizeNumberText (trim s))) \<longrightarrow> parseNumber (Text s) = Inr (Fin 0))
   \<and> (\<not> isFinite n \<longrightarrow> parseNumber (Number n) = Inr (Fin 0))
   \<and> parseNumber (Text ''n/a'') = Inr (Fin 0)
   \<and> parseNumber (Text ''1e999'') = Inr (Fin 0)
   \<and> parseNumber (Text ''$1,234.50'') = Inr (Fin (12345 / 10))
   \<and> parseNumber (Text ''(12.00)'') = Inr (Fin 12)
   \<and> parseNumber (Text ''12%'') = Inr (Fin 12)"
proof -
  have z: "\<exists>r. parseNumber raw = Inr (Fin r)"
    using parseNumber_returns [of raw] by (cases "numberOfCell raw") (simp_all add: isFinite_def)
  have a: "parseNumber Undefined = Inr (Fin 0)" by (simp add: parseNumber_def)
  have b: "trim s = [] \<longrightarrow> parseNumber (Text s) = Inr (Fin 0)" by (simp add: parseNumber_def)
  have c: "\<not> isFinite (parseFloat (normalizeNumberText (trim s))) \<longrightarrow> parseNumber (Text s) = Inr (Fin 0)"
    by (simp add: parseNumber_def Let_def finiteOrZero_def)
  have d: "\<not> isFinite n \<longrightarrow> parseNumber (Number n) = Inr (Fin 0)"
    by (simp add: parseNumber_def finiteOrZero_def)
  have na: "parseNumber (Text ''n/a'') = Inr (Fin 0)" by (simp add: number_eval)
  have nt: "trim ''1e999'' = ''1e999''" "normalizeNumberText ''1e999'' = ''1e999''"
    by (simp_all add: trim_def isSpace_def normalizeNumberText_def deleteChars_def)
  have ov: "parseNumber (Text ''1e999'') = Inr (Fin 0)"
    by (simp add: parseNumber_def nt parseFloat_overflow finiteOrZero_def isFinite_def)
  have e: "parseNumber (Text ''$1,234.50'') = Inr (Fin (12345 / 10))" by code_simp
  have f: "parseNumber (Text ''(12.00)'') = Inr (Fin 12)" by code_simp
  have g: "parseNumber (Text ''12%'') = Inr (Fin 12)" by code_simp
  from z a b c d na ov e f g show ?thesis by blast
qed

theorem parseNumber_spec_witness:
  "trim ''  '' = [] \<and> parseNumber (Text ''  '') = Inr (Fin 0)
   \<and> \<not> isFinite (parseFloat (normalizeNumberText (trim ''1e999''))) \<and> parseNumber (Text ''1e999'') = Inr (Fin 0)
   \<and> \<not> isFinite PosInf \<and> parseNumber (Number PosInf) = Inr (Fin 0)"
proof -
  have a: "trim ''  '' = []" by (simp add: trim_def isSpace_def)
  have nt: "trim ''1e999'' = ''1e999''" "normalizeNumberText ''1e999'' = ''1e999''"
    by (simp_all add: trim_def isSpace_def normalizeNumberText_def deleteChars_def)
  have b: "\<not> isFinite (parseFloat (normalizeNumberText (trim ''1e999'')))"
    by (simp add: nt parseFloat_overflow isFinite_def)
  have c: "\<not> isFinite PosInf" by (simp add: isFinite_def)
  show ?thesis
    using a b c parseNumber_spec [of Undefined "''  ''" PosInf]
      parseNumber_spec [of Undefined "''1e999''" PosInf] by blast
qed

section \<open>Calendar dates of the host language\<close>

text \<open>
  A \<^verbatim>\<open>Date\<close> holds a time value: milliseconds since 1 January 1970 UTC. The day number,
  the year, the month and the day of the month follow the definitions of the language
  standard (\<open>Day\<close>, \<open>DaysInYear\<close>, \<open>DayFromYear\<close>, \<open>YearFromTime\<close>, \<open>InLeapYear\<close>,
  \<open>MonthFromTime\<close>, \<open>DateFromTime\<close>, \<open>MakeDay\<close>), stated on day numbers. The year of a day
  is the largest year that starts on or before it; \<open>findYear\<close> searches for it from an
  estimate.
\<close>

definition msPerDay :: int where
  "msPerDay = 86400000"

definition DaysInYear :: "int \<Rightarrow> int" where
  "DaysInYear y =
     (if y mod 4 \<noteq> 0 then 365
      else if y mod 100 \<noteq> 0 then 366
      else if y mod 400 \<noteq> 0 then 365
      else 366)"

definition DayFromYear :: "int \<Rightarrow> int" where
  "DayFromYear y =
     365 * (y - 1970) + (y - 1969) div 4 - (y - 1901) div 100 + (y - 1601) div 400"

lemma div_succ:
  fixes a n :: int
  assumes "0 < n"
  shows "(a + 1) div n = a div n + (if (a + 1) mod n = 0 then 1 else 0)"
proof -
  define q where "q = a div n"
  define r where "r = a mod n"
  have a: "a = q * n + r" by (simp add: q_def r_def)
  have r: "0 \<le> r" "r < n" using assms by (simp_all add: r_def)
  show ?thesis
  proof (cases "r + 1 < n")
    case True
    have "(a + 1) div n = (r + 1 + q * n) div n" by (simp add: a ac_simps)
    also have "\<dots> = q" using True r by simp
    finally have d: "(a + 1) div n = q" .
    have "(a + 1) mod n = (r + 1 + q * n) mod n" by (simp add: a ac_simps)
    also have "\<dots> = r + 1" using True r by simp
    finally have "(a + 1) mod n \<noteq> 0" using r by simp
    with d show ?thesis by (simp add: q_def)
  next
    case False
    then have rn: "r + 1 = n" using r by simp
    have e: "a + 1 = (q + 1) * n" using rn by (simp add: a algebra_simps)
    have "(a + 1) div n = q + 1" unfolding e using assms by simp
    moreover have "(a + 1) mod n = 0" unfolding e by simp
    ultimately show ?thesis by (simp add: q_def)
  qed
qed

lemma DayFromYear_Suc: "DayFromYear (y + 1) = DayFromYear y + DaysInYear y"
proof -
  define A where "A = (y - 1969) div 4"
  define B where "B = (y - 1901) div 100"
  define C where "C = (y - 1601) div 400"
  define i4 :: int where "i4 = (if y mod 4 = 0 then 1 else 0)"
  define i100 :: int where "i100 = (if y mod 100 = 0 then 1 else 0)"
  define i400 :: int where "i400 = (if y mod 400 = 0 then 1 else 0)"
  have m4: "(y - 1968) mod 4 = y mod 4"
    using mod_mult_self1 [of y "- 492" 4] by simp
  have m100: "(y - 1900) mod 100 = y mod 100"
    using mod_mult_self1 [of y "- 19" 100] by simp
  have m400: "(y - 1600) mod 400 = y mod 400"
    using mod_mult_self1 [of y "- 4" 400] by simp
  have d4: "(y - 1968) div 4 = A + i4"
    using div_succ [of 4 "y - 1969"] m4 by (simp add: A_def i4_def)
  have d100: "(y - 1900) div 100 = B + i100"
    using div_succ [of 100 "y - 1901"] m100 by (simp add: B_def i100_def)
  have d400: "(y - 1600) div 400 = C + i400"
    using div_succ [of 400 "y - 1601"] m400 by (simp add: C_def i400_def)
  have c1: "y mod 100 = 0 \<Longrightarrow> y mod 4 = 0"
    using dvd_trans [of 4 100 y] by (simp add: mod_eq_0_iff_dvd)
  have c2: "y mod 400 = 0 \<Longrightarrow> y mod 100 = 0"
    using dvd_trans [of 100 400 y] by (simp add: mod_eq_0_iff_dvd)
  have diy: "DaysInYear y = 365 + i4 - i100 + i400"
    using c1 c2 by (auto simp: DaysInYear_def i4_def i100_def i400_def)
  have e0: "DayFromYear y = 365 * (y - 1970) + A - B + C"
    by (simp only: DayFromYear_def A_def B_def C_def)
  have s1: "y + 1 - 1970 = y - 1969" "y + 1 - 1969 = y - 1968" "y + 1 - 1901 = y - 1900"
    "y + 1 - 1601 = y - 1600" by simp_all
  have e1: "DayFromYear (y + 1) = 365 * (y - 1969) + (A + i4) - (B + i100) + (C + i400)"
    by (simp only: DayFromYear_def s1 d4 d100 d400)
  show ?thesis unfolding e0 e1 diy by (simp only: algebra_simps)
qed

lemma DaysInYear_bounds: "365 \<le> DaysInYear y \<and> DaysInYear y \<le> 366"
  by (simp add: DaysInYear_def)

lemma DayFromYear_pred: "DayFromYear (y - 1) = DayFromYear y - DaysInYear (y - 1)"
  using DayFromYear_Suc [of "y - 1"] by simp

function findYear :: "int \<Rightarrow> int \<Rightarrow> int" where
  "findYear d y =
     (if d < DayFromYear y then findYear d (y - 1)
      else if DayFromYear (y + 1) \<le> d then findYear d (y + 1)
      else y)"
  by pat_completeness auto
termination
proof (relation "measure (\<lambda>(d, y). if d < DayFromYear y then 366 + nat (DayFromYear y - d)
                                   else nat (d - DayFromYear y))")
  show "wf (measure (\<lambda>(d, y). if d < DayFromYear y then 366 + nat (DayFromYear y - d)
                                   else nat (d - DayFromYear y)))"
    by simp
next
  fix d y :: int
  assume "d < DayFromYear y"
  then show "((d, y - 1), (d, y)) \<in> measure (\<lambda>(d, y). if d < DayFromYear y then 366 + nat (DayFromYear y - d)
                                   else nat (d - DayFromYear y))"
    using DaysInYear_bounds [of "y - 1"] by (auto simp: DayFromYear_pred)
next
  fix d y :: int
  assume "\<not> d < DayFromYear y" "DayFromYear (y + 1) \<le> d"
  then show "((d, y + 1), (d, y)) \<in> measure (\<lambda>(d, y). if d < DayFromYear y then 366 + nat (DayFromYear y - d)
                                   else nat (d - DayFromYear y))"
    using DaysInYear_bounds [of y] by (auto simp: DayFromYear_Suc)
qed

declare findYear.simps [simp del]

definition YearFromDay :: "int \<Rightarrow> int" where
  "YearFromDay d = findYear d (1970 + d div 365)"

lemma findYear_spec: "DayFromYear (findYear d y) \<le> d \<and> d < DayFromYear (findYear d y + 1)"
proof (induction d y rule: findYear.induct)
  case (1 d y)
  show ?case
  proof (cases "d < DayFromYear y")
    case True
    with 1 show ?thesis by (subst (1 2) findYear.simps) simp
  next
    case False
    show ?thesis
    proof (cases "DayFromYear (y + 1) \<le> d")
      case True
      with False 1 show ?thesis by (subst (1 2) findYear.simps) simp
    next
      case no: False
      with False show ?thesis by (subst (1 2) findYear.simps) simp
    qed
  qed
qed


lemma DayFromYear_mono_aux: "DayFromYear y \<le> DayFromYear (y + int n)"
proof (induction n)
  case 0
  show ?case by simp
next
  case (Suc n)
  have "DayFromYear (y + int (Suc n)) = DayFromYear (y + int n) + DaysInYear (y + int n)"
    using DayFromYear_Suc [of "y + int n"] by (simp add: ac_simps)
  with Suc DaysInYear_bounds [of "y + int n"] show ?case by linarith
qed

lemma DayFromYear_mono: "y \<le> y' \<Longrightarrow> DayFromYear y \<le> DayFromYear y'"
  using DayFromYear_mono_aux [of y "nat (y' - y)"] by simp

lemma YearFromDay_spec:
  "DayFromYear (YearFromDay d) \<le> d \<and> d < DayFromYear (YearFromDay d) + DaysInYear (YearFromDay d)"
  using findYear_spec [of d "1970 + d div 365"] by (simp add: YearFromDay_def DayFromYear_Suc)

lemma YearFromDay_less: "YearFromDay d < YearFromDay d' \<Longrightarrow> d < d'"
proof -
  assume a: "YearFromDay d < YearFromDay d'"
  have "d < DayFromYear (YearFromDay d + 1)"
    using YearFromDay_spec [of d] by (simp add: DayFromYear_Suc)
  also have "\<dots> \<le> DayFromYear (YearFromDay d')"
    using a by (intro DayFromYear_mono) simp
  also have "\<dots> \<le> d'" using YearFromDay_spec [of d'] by simp
  finally show ?thesis .
qed

lemma YearFromDay_eqI: "DayFromYear y \<le> d \<Longrightarrow> d < DayFromYear (y + 1) \<Longrightarrow> YearFromDay d = y"
proof (rule ccontr)
  assume a: "DayFromYear y \<le> d" "d < DayFromYear (y + 1)" and n: "YearFromDay d \<noteq> y"
  have s: "DayFromYear (YearFromDay d) \<le> d" "d < DayFromYear (YearFromDay d + 1)"
    using YearFromDay_spec [of d] by (simp_all add: DayFromYear_Suc)
  show False
  proof (cases "YearFromDay d < y")
    case True
    then have "DayFromYear (YearFromDay d + 1) \<le> DayFromYear y" by (intro DayFromYear_mono) simp
    with s a show False by simp
  next
    case False
    with n have "y + 1 \<le> YearFromDay d" by simp
    then have "DayFromYear (y + 1) \<le> DayFromYear (YearFromDay d)" by (rule DayFromYear_mono)
    with s a show False by simp
  qed
qed

definition InLeapYear :: "int \<Rightarrow> int" where
  "InLeapYear y = (if DaysInYear y = 366 then 1 else 0)"

definition MonthFromDay :: "int \<Rightarrow> int \<Rightarrow> int" where
  "MonthFromDay l w =
     (if w < 31 then 0
      else if w < 59 + l then 1
      else if w < 90 + l then 2
      else if w < 120 + l then 3
      else if w < 151 + l then 4
      else if w < 181 + l then 5
      else if w < 212 + l then 6
      else if w < 243 + l then 7
      else if w < 273 + l then 8
      else if w < 304 + l then 9
      else if w < 334 + l then 10
      else 11)"

definition DateFromDay :: "int \<Rightarrow> int \<Rightarrow> int" where
  "DateFromDay l w =
     (let m = MonthFromDay l w
      in if m = 0 then w + 1
         else if m = 1 then w - 30
         else if m = 2 then w - 58 - l
         else if m = 3 then w - 89 - l
         else if m = 4 then w - 119 - l
         else if m = 5 then w - 150 - l
         else if m = 6 then w - 180 - l
         else if m = 7 then w - 211 - l
         else if m = 8 then w - 242 - l
         else if m = 9 then w - 272 - l
         else if m = 10 then w - 303 - l
         else w - 333 - l)"

definition monthStart :: "int \<Rightarrow> int \<Rightarrow> int" where
  "monthStart l m =
     (if m = 0 then 0 else if m = 1 then 31
      else [59, 90, 120, 151, 181, 212, 243, 273, 304, 334] ! nat (m - 2) + l)"

definition daysInMonth :: "int \<Rightarrow> int \<Rightarrow> int" where
  "daysInMonth l m =
     (if m = 1 then 28 + l else if m \<in> {3, 5, 8, 10} then 30 else 31)"

definition MakeDay :: "int \<Rightarrow> int \<Rightarrow> int \<Rightarrow> int" where
  "MakeDay y m dt = DayFromYear y + monthStart (InLeapYear y) m + dt - 1"

lemma MonthFromDay_less:
  "MonthFromDay l w < MonthFromDay l w' \<Longrightarrow> w < w'"
  unfolding MonthFromDay_def by (simp split: if_splits)

lemma DateFromDay_less:
  "MonthFromDay l w = MonthFromDay l w' \<Longrightarrow> DateFromDay l w < DateFromDay l w' \<Longrightarrow> w < w'"
  unfolding DateFromDay_def Let_def by (simp split: if_splits)

lemma MonthFromDay_range: "0 \<le> MonthFromDay l w \<and> MonthFromDay l w \<le> 11"
  unfolding MonthFromDay_def by simp

lemma month_roundtrip:
  assumes "l = 0 \<or> l = 1" "0 \<le> w" "w < 365 + l"
  shows "monthStart l (MonthFromDay l w) + DateFromDay l w - 1 = w"
    and "1 \<le> DateFromDay l w"
    and "DateFromDay l w \<le> daysInMonth l (MonthFromDay l w)"
  using assms unfolding DateFromDay_def Let_def MonthFromDay_def monthStart_def daysInMonth_def
  by (auto split: if_splits)

text \<open>
  \<^verbatim>\<open>Date.prototype.toISOString\<close> writes \<open>YYYY-MM-DDTHH:mm:ss.sssZ\<close> in UTC; a year outside
  0 to 9999 is written with a sign and six digits.
\<close>

definition digitChar :: "nat \<Rightarrow> char" where
  "digitChar n = char_of (48 + n)"

fun pad :: "nat \<Rightarrow> nat \<Rightarrow> string" where
  "pad 0 n = []"
| "pad (Suc k) n = pad k (n div 10) @ [digitChar (n mod 10)]"

definition yearText :: "int \<Rightarrow> string" where
  "yearText y =
     (if 0 \<le> y \<and> y \<le> 9999 then pad 4 (nat y)
      else (if y < 0 then CHR ''-'' else CHR ''+'') # pad 6 (nat \<bar>y\<bar>))"

definition dayText :: "int \<Rightarrow> int \<Rightarrow> string" where
  "dayText y w =
     yearText y @ ''-'' @ pad 2 (nat (MonthFromDay (InLeapYear y) w + 1)) @ ''-''
       @ pad 2 (nat (DateFromDay (InLeapYear y) w))"

definition dateText :: "int \<Rightarrow> string" where
  "dateText d = dayText (YearFromDay d) (d - DayFromYear (YearFromDay d))"

definition timeText :: "int \<Rightarrow> string" where
  "timeText ms =
     pad 2 (nat (ms div 3600000)) @ '':'' @ pad 2 (nat (ms div 60000 mod 60)) @ '':''
       @ pad 2 (nat (ms div 1000 mod 60)) @ ''.'' @ pad 3 (nat (ms mod 1000))"

definition isoText :: "int \<Rightarrow> string" where
  "isoText t = dateText (t div msPerDay) @ ''T'' @ timeText (t mod msPerDay) @ ''Z''"

lemma length_pad [simp]: "length (pad k n) = k"
  by (induction k arbitrary: n) simp_all

lemma digits_less:
  fixes a b :: nat
  shows "(a < b) = (a div 10 < b div 10 \<or> a div 10 = b div 10 \<and> a mod 10 < b mod 10)"
proof -
  define qa ra qb rb where "qa = a div 10" and "ra = a mod 10" and "qb = b div 10" and "rb = b mod 10"
  have a: "a = 10 * qa + ra" and b: "b = 10 * qb + rb" by (simp_all add: qa_def ra_def qb_def rb_def)
  have r: "ra < 10" "rb < 10" by (simp_all add: ra_def rb_def)
  have "(a < b) = (qa < qb \<or> qa = qb \<and> ra < rb)" unfolding a b using r by linarith
  then show ?thesis by (simp only: qa_def ra_def qb_def rb_def)
qed
lemma digits_eq:
  fixes a b :: nat
  shows "(a div 10 = b div 10 \<and> a mod 10 = b mod 10) = (a = b)"
  using div_mult_mod_eq [of a 10] div_mult_mod_eq [of b 10] by metis

lemma of_char_digitChar: "a < 10 \<Longrightarrow> of_char (digitChar a) = (48 + a :: nat)"
  by (simp add: digitChar_def)

lemma digitChar_less: "a < 10 \<Longrightarrow> b < 10 \<Longrightarrow> (digitChar a < digitChar b) = (a < b)"
  by (simp add: digitChar_def less_char_def)

lemma digitChar_eq: "a < 10 \<Longrightarrow> b < 10 \<Longrightarrow> (digitChar a = digitChar b) = (a = b)"
  by (metis of_char_digitChar add_left_cancel)

lemma append_less_same_length:
  "length xs = length ys \<Longrightarrow> (xs @ us < ys @ vs) = (xs < ys \<or> xs = ys \<and> us < vs)"
  for xs ys :: "('a :: linorder) list"
  by (induction xs ys rule: list_induct2) auto

lemma pad_inj: "a < 10 ^ k \<Longrightarrow> b < 10 ^ k \<Longrightarrow> (pad k a = pad k b) = (a = b)"
proof (induction k arbitrary: a b)
  case 0
  then show ?case by simp
next
  case (Suc k)
  have "a div 10 < 10 ^ k" "b div 10 < 10 ^ k" using Suc.prems by (simp_all add: less_mult_imp_div_less mult.commute)
  then have "(pad k (a div 10) = pad k (b div 10)) = (a div 10 = b div 10)" by (rule Suc.IH)
  moreover have "(a div 10 = b div 10 \<and> a mod 10 = b mod 10) = (a = b)"
    by (rule digits_eq)
  ultimately show ?case by (auto simp: digitChar_eq)
qed

lemma pad_less: "a < 10 ^ k \<Longrightarrow> b < 10 ^ k \<Longrightarrow> (pad k a < pad k b) = (a < b)"
proof (induction k arbitrary: a b)
  case 0
  then show ?case by simp
next
  case (Suc k)
  have bd: "a div 10 < 10 ^ k" "b div 10 < 10 ^ k" using Suc.prems by (simp_all add: less_mult_imp_div_less mult.commute)
  have ih: "(pad k (a div 10) < pad k (b div 10)) = (a div 10 < b div 10)" using bd by (rule Suc.IH)
  have inj: "(pad k (a div 10) = pad k (b div 10)) = (a div 10 = b div 10)" using bd by (rule pad_inj)
  have ar: "(a < b) = (a div 10 < b div 10 \<or> a div 10 = b div 10 \<and> a mod 10 < b mod 10)"
    by (rule digits_less)
  show ?case
    by (simp add: append_less_same_length ih inj digitChar_less ar)
qed


lemma DaysInYear_leap: "DaysInYear y = 365 + InLeapYear y"
  using DaysInYear_bounds [of y] by (simp add: InLeapYear_def DaysInYear_def)

lemma InLeapYear_cases: "InLeapYear y = 0 \<or> InLeapYear y = 1"
  by (simp add: InLeapYear_def)

lemma dayWithinYear_range:
  "0 \<le> d - DayFromYear (YearFromDay d) \<and> d - DayFromYear (YearFromDay d) < 365 + InLeapYear (YearFromDay d)"
  using YearFromDay_spec [of d] by (simp add: DaysInYear_leap)

lemma daysInMonth_le: "l = 0 \<or> l = 1 \<Longrightarrow> daysInMonth l m \<le> 31"
  by (auto simp: daysInMonth_def)

lemma date_range:
  "1 \<le> DateFromDay (InLeapYear (YearFromDay d)) (d - DayFromYear (YearFromDay d)) \<and>
   DateFromDay (InLeapYear (YearFromDay d)) (d - DayFromYear (YearFromDay d)) \<le> 31"
proof -
  let ?l = "InLeapYear (YearFromDay d)" and ?w = "d - DayFromYear (YearFromDay d)"
  have l: "?l = 0 \<or> ?l = 1" by (rule InLeapYear_cases)
  have w: "0 \<le> ?w" "?w < 365 + ?l" using dayWithinYear_range [of d] by simp_all
  have "1 \<le> DateFromDay ?l ?w" using l w by (rule month_roundtrip(2))
  moreover have "DateFromDay ?l ?w \<le> daysInMonth ?l (MonthFromDay ?l ?w)"
    using l w by (rule month_roundtrip(3))
  moreover have "daysInMonth ?l (MonthFromDay ?l ?w) \<le> 31" using l by (rule daysInMonth_le)
  ultimately show ?thesis by linarith
qed

lemma dateText_less:
  assumes y: "0 \<le> YearFromDay d" "YearFromDay d \<le> 9999"
    and y': "0 \<le> YearFromDay d'" "YearFromDay d' \<le> 9999"
    and lt: "dateText d < dateText d'"
  shows "d < d'"
proof -
  define yy l w where "yy = YearFromDay d" and "l = InLeapYear yy" and "w = d - DayFromYear yy"
  define yy' l' w' where "yy' = YearFromDay d'" and "l' = InLeapYear yy'" and "w' = d' - DayFromYear yy'"
  define m dt where "m = MonthFromDay l w + 1" and "dt = DateFromDay l w"
  define m' dt' where "m' = MonthFromDay l' w' + 1" and "dt' = DateFromDay l' w'"
  have t: "dateText d = pad 4 (nat yy) @ (CHR ''-'' # pad 2 (nat m) @ (CHR ''-'' # pad 2 (nat dt)))"
    using y by (simp add: dateText_def dayText_def yearText_def yy_def l_def w_def m_def dt_def)
  have t': "dateText d' = pad 4 (nat yy') @ (CHR ''-'' # pad 2 (nat m') @ (CHR ''-'' # pad 2 (nat dt')))"
    using y' by (simp add: dateText_def dayText_def yearText_def yy'_def l'_def w'_def m'_def dt'_def)
  have by4: "nat yy < 10 ^ 4" "nat yy' < 10 ^ 4" using y y' by (simp_all add: yy_def yy'_def)
  have mr: "1 \<le> m" "m \<le> 12" "1 \<le> m'" "m' \<le> 12"
    using MonthFromDay_range [of l w] MonthFromDay_range [of l' w'] by (simp_all add: m_def m'_def)
  have dr: "1 \<le> dt" "dt \<le> 31" "1 \<le> dt'" "dt' \<le> 31"
    using date_range [of d] date_range [of d']
    by (simp_all add: dt_def dt'_def l_def l'_def w_def w'_def yy_def yy'_def)
  have bm: "nat m < 10 ^ 2" "nat m' < 10 ^ 2" "nat dt < 10 ^ 2" "nat dt' < 10 ^ 2"
    using mr dr by simp_all
  from lt have c: "pad 4 (nat yy) < pad 4 (nat yy') \<or>
      pad 4 (nat yy) = pad 4 (nat yy') \<and>
      (pad 2 (nat m) < pad 2 (nat m') \<or>
       pad 2 (nat m) = pad 2 (nat m') \<and> pad 2 (nat dt) < pad 2 (nat dt'))"
    unfolding t t' by (simp add: append_less_same_length)
  then have c2: "nat yy < nat yy' \<or> nat yy = nat yy' \<and> (nat m < nat m' \<or> nat m = nat m' \<and> nat dt < nat dt')"
    by (simp add: pad_less [OF by4] pad_inj [OF by4] pad_less [OF bm(1,2)] pad_inj [OF bm(1,2)]
        pad_less [OF bm(3,4)])
  then consider (year) "yy < yy'" | (month) "yy = yy'" "m < m'" | (day) "yy = yy'" "m = m'" "dt < dt'"
    using y y' mr dr by (auto simp: yy_def yy'_def)
  then show ?thesis
  proof cases
    case year
    then show ?thesis unfolding yy_def yy'_def by (rule YearFromDay_less)
  next
    case month
    then have "l = l'" by (simp add: l_def l'_def)
    with month have "MonthFromDay l w < MonthFromDay l w'" by (simp add: m_def m'_def)
    then have "w < w'" by (rule MonthFromDay_less)
    with month show ?thesis by (simp add: w_def w'_def)
  next
    case day
    then have ll: "l = l'" by (simp add: l_def l'_def)
    with day have "MonthFromDay l w = MonthFromDay l w'" "DateFromDay l w < DateFromDay l w'"
      by (simp_all add: m_def m'_def dt_def dt'_def)
    then have "w < w'" by (rule DateFromDay_less)
    with day show ?thesis by (simp add: w_def w'_def)
  qed
qed

lemma length_dateText: "0 \<le> YearFromDay d \<Longrightarrow> YearFromDay d \<le> 9999 \<Longrightarrow> length (dateText d) = 10"
  by (simp add: dateText_def dayText_def yearText_def)

lemma take10_isoText:
  "0 \<le> YearFromDay (t div msPerDay) \<Longrightarrow> YearFromDay (t div msPerDay) \<le> 9999 \<Longrightarrow>
   take 10 (isoText t) = dateText (t div msPerDay)"
  by (simp add: isoText_def length_dateText)

section \<open>Date cells\<close>

text \<open>
  How \<^verbatim>\<open>new Date(text)\<close> reads a text is left to the host by the language standard, apart
  from the ISO forms, and depends on the host's time zone. The host's reading is a
  parameter: \<open>h s\<close> is the time value the host gives the text \<open>s\<close>, \<open>None\<close> when the
  result is an invalid date. A time value beyond 8.64e15 ms is an invalid date.
\<close>

type_synonym host = "string \<Rightarrow> int option"

definition newDate :: "host \<Rightarrow> string \<Rightarrow> int option" where
  "newDate h s =
     (case h s of
        None \<Rightarrow> None
      | Some t \<Rightarrow> if \<bar>t\<bar> \<le> 8640000000000000 then Some t else None)"

definition toISOString :: "int option \<Rightarrow> js_error + string" where
  "toISOString date = (case date of None \<Rightarrow> Inl RangeError | Some t \<Rightarrow> Inr (isoText t))"

definition slice10 :: "js_error + string \<Rightarrow> js_error + string option" where
  "slice10 r = (case r of Inl e \<Rightarrow> Inl e | Inr s \<Rightarrow> Inr (Some (take 10 s)))"

definition slashesToDashes :: "string \<Rightarrow> string" where
  "slashesToDashes s = map (\<lambda>c. if c = CHR ''/'' then CHR ''-'' else c) s"

definition firstPart :: "string \<Rightarrow> string" where
  "firstPart s = takeWhile (\<lambda>c. \<not> isSpace c \<and> c \<noteq> CHR ''T'') s"

text \<open>
  \<^verbatim>\<open>tryParseDate\<close>: an undefined, empty or blank cell gives \<^verbatim>\<open>null\<close>. Otherwise the trimmed
  text is read with every slash replaced by a dash; if that is an invalid date the text
  before the first whitespace or \<^verbatim>\<open>T\<close> is read (slashes kept). A valid date gives the first
  ten characters of its ISO text, and no valid date gives \<^verbatim>\<open>null\<close>.
\<close>

definition tryParseDate :: "host \<Rightarrow> string option \<Rightarrow> js_error + string option" where
  "tryParseDate h raw =
     (case raw of
        None \<Rightarrow> Inr None
      | Some r \<Rightarrow>
          if r = [] then Inr None
          else
            let value = trim r
            in if value = [] then Inr None
               else
                 let date = newDate h (slashesToDashes value)
                 in if date \<noteq> None then slice10 (toISOString date)
                    else
                      let dateAlt = newDate h (firstPart value)
                      in if dateAlt \<noteq> None then slice10 (toISOString dateAlt)
                         else Inr None)"

definition isoDate :: "int \<Rightarrow> string" where
  "isoDate t = take 10 (isoText t)"

text \<open>
  \<open>dateOfCell\<close> is the value \<open>tryParseDate\<close> returns; by \<open>tryParseDate_returns\<close> it always
  returns one, so the callers below use \<open>dateOfCell\<close>.
\<close>

definition dateOfCell :: "host \<Rightarrow> string option \<Rightarrow> string option" where
  "dateOfCell h raw = (case tryParseDate h raw of Inr r \<Rightarrow> r | Inl e \<Rightarrow> None)"

lemma tryParseDate_returns: "tryParseDate h raw = Inr (dateOfCell h raw)"
  by (auto simp: tryParseDate_def dateOfCell_def Let_def slice10_def toISOString_def
      split: option.splits)

lemma dateOfCell_Some:
  "dateOfCell h raw = Some s \<Longrightarrow> \<exists>t. s = isoDate t"
  by (auto simp: tryParseDate_def dateOfCell_def Let_def slice10_def toISOString_def isoDate_def
      split: option.splits if_splits)

text \<open>
  A host that accepts exactly the date-only forms of the standard's date-time format
  (\<open>YYYY\<close>, \<open>YYYY-MM\<close>, \<open>YYYY-MM-DD\<close>, the year also as a sign and six digits) and reads
  them as UTC midnight, as the standard requires of every host.
\<close>

definition isoYear :: "string \<Rightarrow> (int \<times> string) option" where
  "isoYear s =
     (case s of
        [] \<Rightarrow> None
      | c # r \<Rightarrow>
          if c = CHR ''+'' \<or> c = CHR ''-'' then
            (if 6 \<le> length r \<and> list_all isDigit (take 6 r)
                \<and> \<not> (c = CHR ''-'' \<and> decimalValue (take 6 r) = 0)
             then Some ((if c = CHR ''-'' then - 1 else 1) * decimalValue (take 6 r), drop 6 r)
             else None)
          else if 4 \<le> length s \<and> list_all isDigit (take 4 s)
            then Some (decimalValue (take 4 s), drop 4 s)
            else None)"

definition dashField :: "string \<Rightarrow> (int \<times> string) option" where
  "dashField s =
     (case s of
        c # a # b # r \<Rightarrow>
          if c = CHR ''-'' \<and> isDigit a \<and> isDigit b then Some (decimalValue [a, b], r) else None
      | _ \<Rightarrow> None)"

definition isoHost :: host where
  "isoHost s =
     (case isoYear s of
        None \<Rightarrow> None
      | Some (y, r1) \<Rightarrow>
          if r1 = [] then Some (MakeDay y 0 1 * msPerDay)
          else
            (case dashField r1 of
               None \<Rightarrow> None
             | Some (m, r2) \<Rightarrow>
                 if m < 1 \<or> 12 < m then None
                 else if r2 = [] then Some (MakeDay y (m - 1) 1 * msPerDay)
                 else
                   (case dashField r2 of
                      None \<Rightarrow> None
                    | Some (dt, r3) \<Rightarrow>
                        if r3 \<noteq> [] \<or> dt < 1 \<or> daysInMonth (InLeapYear y) (m - 1) < dt then None
                        else Some (MakeDay y (m - 1) dt * msPerDay))))"


lemma pad_digits: "list_all isDigit (pad k n)"
  by (induction k arbitrary: n) (simp_all add: isDigit_def digitChar_def)

lemma decimalValue_snoc: "decimalValue (ds @ [c]) = 10 * decimalValue ds + digitVal c"
  by (simp add: decimalValue_def)

lemma digitVal_digitChar: "a < 10 \<Longrightarrow> digitVal (digitChar a) = int a"
proof -
  assume a: "a < 10"
  have "(of_char (digitChar a) :: int) = int (of_char (digitChar a))"
    by (simp only: of_nat_of_char)
  also have "\<dots> = int (48 + a)" using a by (simp only: of_char_digitChar)
  finally show ?thesis by (simp add: digitVal_def)
qed

lemma decimalValue_pad: "n < 10 ^ k \<Longrightarrow> decimalValue (pad k n) = int n"
proof (induction k arbitrary: n)
  case 0
  then show ?case by (simp add: decimalValue_def)
next
  case (Suc k)
  have "n div 10 < 10 ^ k" using Suc.prems by (simp add: less_mult_imp_div_less mult.commute)
  then have "decimalValue (pad k (n div 10)) = int (n div 10)" by (rule Suc.IH)
  moreover have "int n = 10 * int (n div 10) + int (n mod 10)"
    using div_mult_mod_eq [of n 10] by (metis mult.commute of_nat_add of_nat_mult of_nat_numeral)
  ultimately show ?case by (simp add: decimalValue_snoc digitVal_digitChar)
qed

lemma isoText_nonempty: "isoDate t \<noteq> []"
  by (simp add: isoDate_def isoText_def dateText_def dayText_def yearText_def)

text \<open>
  A host reads ISO dates when it gives every date text \<open>YYYY-MM-DD\<close> of the years 0 to 9999
  the time value of that day's UTC midnight.
\<close>

definition readsIsoDates :: "host \<Rightarrow> bool" where
  "readsIsoDates h =
     (\<forall>d. 0 \<le> YearFromDay d \<and> YearFromDay d \<le> 9999 \<longrightarrow> newDate h (dateText d) = Some (d * msPerDay))"

lemma digitChar_not_sign: "a < 10 \<Longrightarrow> digitChar a \<noteq> CHR ''+'' \<and> digitChar a \<noteq> CHR ''-''"
proof -
  assume a: "a < 10"
  have "(of_char (digitChar a) :: nat) \<noteq> of_char CHR ''+''" "(of_char (digitChar a) :: nat) \<noteq> of_char CHR ''-''"
    using a by (simp_all add: of_char_digitChar)
  then show ?thesis by auto
qed

lemma isDigit_digitChar: "a < 10 \<Longrightarrow> isDigit (digitChar a)"
  by (simp add: isDigit_def of_char_digitChar)

lemma pad_numeral [simp]:
  "pad (numeral k) n = pad (pred_numeral k) (n div 10) @ [digitChar (n mod 10)]"
  by (metis pad.simps(2) numeral_eq_Suc)

lemma pad_4: "pad 4 n = [digitChar (n div 10 div 10 div 10 mod 10), digitChar (n div 10 div 10 mod 10),
       digitChar (n div 10 mod 10), digitChar (n mod 10)]"
  by simp

lemma pad_2: "pad 2 n = [digitChar (n div 10 mod 10), digitChar (n mod 10)]"
  by simp

lemma isoYear_unsigned:
  "s = c # r' \<Longrightarrow> c \<noteq> CHR ''+'' \<Longrightarrow> c \<noteq> CHR ''-'' \<Longrightarrow>
   isoYear s = (if 4 \<le> length s \<and> list_all isDigit (take 4 s)
                then Some (decimalValue (take 4 s), drop 4 s) else None)"
  by (simp add: isoYear_def)

lemma isoYear_pad4: "n < 10 ^ 4 \<Longrightarrow> isoYear (pad 4 n @ r) = Some (int n, r)"
proof -
  assume n: "n < 10 ^ 4"
  have v: "decimalValue (pad 4 n) = int n" using n by (rule decimalValue_pad)
  have dg: "list_all isDigit (pad 4 n)" by (rule pad_digits)
  have tk: "take 4 (pad 4 n @ r) = pad 4 n" "drop 4 (pad 4 n @ r) = r" by (simp_all only: length_pad append_eq_conv_conj [symmetric] take_append drop_append take_all drop_all
    order_refl diff_self_eq_0 take_0 drop_0 append_Nil2 append_Nil)
  have ns: "digitChar (n div 10 div 10 div 10 mod 10) \<noteq> CHR ''+'' \<and>
      digitChar (n div 10 div 10 div 10 mod 10) \<noteq> CHR ''-''"
    by (rule digitChar_not_sign) simp
  have "\<exists>c cs. pad 4 n = c # cs \<and> c \<noteq> CHR ''+'' \<and> c \<noteq> CHR ''-''"
    using ns unfolding pad_4 by blast
  then obtain c cs where c: "pad 4 n = c # cs" "c \<noteq> CHR ''+''" "c \<noteq> CHR ''-''"
    by blast
  have len: "4 \<le> length (pad 4 n @ r)" by (simp only: length_append length_pad le_add1)
  have "pad 4 n @ r = c # (cs @ r)" using c by simp
  from isoYear_unsigned [OF this c(2,3)] show ?thesis
    using len by (simp only: tk v dg if_True simp_thms)
qed


lemma dashField_pad2: "n < 10 ^ 2 \<Longrightarrow> dashField (CHR ''-'' # pad 2 n @ r) = Some (int n, r)"
proof -
  assume n: "n < 10 ^ 2"
  have v: "decimalValue (pad 2 n) = int n" using n by (rule decimalValue_pad)
  have d: "isDigit (digitChar (n div 10 mod 10))" "isDigit (digitChar (n mod 10))"
    by (rule isDigit_digitChar, simp)+
  have "dashField (CHR ''-'' # pad 2 n @ r) =
        Some (decimalValue [digitChar (n div 10 mod 10), digitChar (n mod 10)], r)"
    unfolding pad_2 using d by (simp add: dashField_def)
  then show ?thesis using v unfolding pad_2 by simp
qed

lemma isoHost_dateText:
  assumes y: "0 \<le> YearFromDay d" "YearFromDay d \<le> 9999"
  shows "isoHost (dateText d) = Some (d * msPerDay)"
proof -
  define yy l w where "yy = YearFromDay d" and "l = InLeapYear yy" and "w = d - DayFromYear yy"
  define m dt where "m = MonthFromDay l w" and "dt = DateFromDay l w"
  define r2 where "r2 = CHR ''-'' # pad 2 (nat dt) @ []"
  define r1 where "r1 = CHR ''-'' # pad 2 (nat (m + 1)) @ r2"
  have l: "l = 0 \<or> l = 1" unfolding l_def by (rule InLeapYear_cases)
  have w: "0 \<le> w" "w < 365 + l" using dayWithinYear_range [of d] by (simp_all add: w_def l_def yy_def)
  have mr: "0 \<le> m" "m \<le> 11" using MonthFromDay_range [of l w] by (simp_all add: m_def)
  have rt: "monthStart l m + dt - 1 = w" "1 \<le> dt" "dt \<le> daysInMonth l m"
    using month_roundtrip [OF l w] by (simp_all add: m_def dt_def)
  have dt31: "dt \<le> 31" using rt(3) daysInMonth_le [OF l, of m] by linarith
  have yr: "0 \<le> yy" "yy \<le> 9999" using y by (simp_all add: yy_def)
  have t: "dateText d = pad 4 (nat yy) @ r1"
    using yr by (simp add: dateText_def dayText_def yearText_def r1_def r2_def yy_def l_def w_def m_def dt_def
        del: pad_numeral)
  have iy: "isoYear (dateText d) = Some (yy, r1)"
    unfolding t using isoYear_pad4 [of "nat yy" r1] yr by simp
  have f1: "dashField r1 = Some (m + 1, r2)"
    unfolding r1_def using dashField_pad2 [of "nat (m + 1)" r2] mr by simp
  have f2: "dashField r2 = Some (dt, [])"
    unfolding r2_def using dashField_pad2 [of "nat dt" "[]"] rt dt31 by simp
  have ne: "r1 \<noteq> []" "r2 \<noteq> []" by (simp_all add: r1_def r2_def)
  have md: "MakeDay yy m dt = d"
    using rt(1) by (simp add: MakeDay_def l_def [symmetric] w_def)
  have c1: "\<not> (m + 1 < 1 \<or> 12 < m + 1)" using mr by simp
  have c2: "\<not> ([] \<noteq> ([]::string) \<or> dt < 1 \<or> daysInMonth (InLeapYear yy) (m + 1 - 1) < dt)"
    using rt by (simp add: l_def)
  show ?thesis
    using ne c1 c2 md by (simp add: isoHost_def iy f1 f2 del: pad_numeral)
qed


lemma DayFromYear_0: "DayFromYear 0 = - 719528"
  by (simp add: DayFromYear_def)

lemma DayFromYear_10000: "DayFromYear 10000 = 2932897"
  by (simp add: DayFromYear_def)

lemma day_bounds:
  assumes "0 \<le> YearFromDay d" "YearFromDay d \<le> 9999"
  shows "- 719528 \<le> d \<and> d < 2932897"
proof -
  have "DayFromYear 0 \<le> DayFromYear (YearFromDay d)" using assms by (intro DayFromYear_mono)
  moreover have "DayFromYear (YearFromDay d + 1) \<le> DayFromYear 10000"
    using assms by (intro DayFromYear_mono) simp
  ultimately show ?thesis
    using YearFromDay_spec [of d] by (simp add: DayFromYear_0 DayFromYear_10000 DayFromYear_Suc)
qed

lemma isoHost_readsIsoDates: "readsIsoDates isoHost"
  unfolding readsIsoDates_def
proof (intro allI impI)
  fix d
  assume a: "0 \<le> YearFromDay d \<and> YearFromDay d \<le> 9999"
  then have "- 719528 \<le> d \<and> d < 2932897" by (intro day_bounds) simp_all
  then have "\<bar>d * msPerDay\<bar> \<le> 8640000000000000" by (simp add: msPerDay_def abs_le_iff)
  with a show "newDate isoHost (dateText d) = Some (d * msPerDay)"
    by (simp add: newDate_def isoHost_dateText)
qed

text \<open>
  A host one hour east of UTC, given on the month-day-year text of the specification's
  example only. Every major engine reads that text as midnight in local time: local
  midnight of 15 January 2024 is 23:00 UTC of 14 January there.
\<close>

definition eastHost :: host where
  "eastHost s = (if s = ''01-15-2024'' \<or> s = ''01/15/2024'' then Some 1705273200000 else None)"

lemmas date_eval = tryParseDate_def Let_def trim_def isSpace_def slashesToDashes_def firstPart_def
  newDate_def toISOString_def slice10_def isoText_def dateText_def dayText_def timeText_def yearText_def
  msPerDay_def YearFromDay_def findYear.simps DayFromYear_def InLeapYear_def DaysInYear_def
  MonthFromDay_def DateFromDay_def digitChar_def char_of_eq_iff

text \<open>
  Claim C5: \<open>parseDate("01/15/2024")\<close> is to be \<open>"2024-01-15"\<close>. The code reads the
  text in the host's local time and writes the date back in UTC, so on a host east of UTC
  it returns the day before, \<open>"2024-01-14"\<close>.
\<close>

theorem tryParseDate_east_counterexample:
  "tryParseDate eastHost (Some ''01/15/2024'') = Inr (Some ''2024-01-14'')"
  by (simp add: date_eval eastHost_def)


section \<open>Column detector\<close>

text \<open>
  A raw record is an object with string values: its own properties in the order
  \<^verbatim>\<open>Object.keys\<close> lists them, a lookup taking the first pair of a name. \<open>field row name\<close> is
  \<^verbatim>\<open>row[name]\<close>, \<open>None\<close> for \<^verbatim>\<open>undefined\<close>. A \<^verbatim>\<open>Set\<close> of column names is the list of its
  elements in insertion order.
\<close>

type_synonym RawRow = "(string \<times> string) list"

definition field :: "RawRow \<Rightarrow> string \<Rightarrow> string option" where
  "field row name = map_of row name"

definition setAdd :: "string list \<Rightarrow> string \<Rightarrow> string list" where
  "setAdd s x = (if x \<in> set s then s else s @ [x])"

definition newSet :: "string list \<Rightarrow> string list" where
  "newSet xs = foldl setAdd [] xs"

definition setDelete :: "string list \<Rightarrow> string \<Rightarrow> string list" where
  "setDelete s x = filter (\<lambda>y. y \<noteq> x) s"

definition ObjectKeys :: "RawRow \<Rightarrow> string list" where
  "ObjectKeys row = newSet (map fst row)"

text \<open>A value of type \<^verbatim>\<open>string | null | undefined\<close> is truthy when it is a non-empty string.\<close>

definition truthyText :: "string option \<Rightarrow> bool" where
  "truthyText x = (case x of None \<Rightarrow> False | Some s \<Rightarrow> s \<noteq> [])"

text \<open>\<^verbatim>\<open>xs.reduce((acc, x) => (p(x) ? acc + 1 : acc), 0)\<close> counts the elements that satisfy \<open>p\<close>.\<close>

definition countIf :: "('a \<Rightarrow> bool) \<Rightarrow> 'a list \<Rightarrow> nat" where
  "countIf p xs = foldl (\<lambda>acc x. if p x then acc + 1 else acc) 0 xs"

definition dateHits :: "host \<Rightarrow> RawRow list \<Rightarrow> string \<Rightarrow> nat" where
  "dateHits h rows header = countIf (\<lambda>row. truthyText (dateOfCell h (field row header))) rows"

definition dateStep :: "host \<Rightarrow> RawRow list \<Rightarrow> (string \<times> nat) option \<Rightarrow> string \<Rightarrow> (string \<times> nat) option" where
  "dateStep h rows best header =
     (if dateHits h rows header = 0 then best
      else
        (case best of
           None \<Rightarrow> Some (header, dateHits h rows header)
         | Some (bh, bhits) \<Rightarrow>
             if dateHits h rows header > bhits then Some (header, dateHits h rows header) else best))"

definition detectDateColumn :: "host \<Rightarrow> RawRow list \<Rightarrow> string list \<Rightarrow> string option" where
  "detectDateColumn h rows headers = map_option fst (foldl (dateStep h rows) None headers)"

datatype MetricKey = Gross | Net | Discounts | Tips | Transactions

definition metricKeys :: "MetricKey list" where
  "metricKeys = [Gross, Net, Discounts, Tips, Transactions]"

fun metricHints :: "MetricKey \<Rightarrow> string list" where
  "metricHints Gross = [''gross'', ''total sales'', ''total gross'', ''revenue'']"
| "metricHints Net = [''net'', ''total net'', ''net sales'']"
| "metricHints Discounts = [''discount'', ''comp'', ''promo'']"
| "metricHints Tips = [''tip'', ''gratuity'']"
| "metricHints Transactions = [''transactions'', ''orders'', ''receipts'', ''count'']"

text \<open>The regular expression \<^verbatim>\<open>/[-\d.,$()%]/\<close> matches a text that holds one of these characters.\<close>

definition numberish :: "string \<Rightarrow> bool" where
  "numberish s = list_ex (\<lambda>c. isDigit c \<or> c \<in> set ''-.,$()%'') s"

definition cellText :: "RawRow \<Rightarrow> string \<Rightarrow> string" where
  "cellText row header = (case field row header of None \<Rightarrow> [] | Some s \<Rightarrow> s)"

definition lowerChar :: "char \<Rightarrow> char" where
  "lowerChar c =
     (let n = (of_char c :: nat)
      in if (65 \<le> n \<and> n \<le> 90) \<or> (192 \<le> n \<and> n \<le> 222 \<and> n \<noteq> 215) then char_of (n + 32) else c)"

definition toLowerCase :: "string \<Rightarrow> string" where
  "toLowerCase s = map lowerChar s"

fun includesText :: "string \<Rightarrow> string \<Rightarrow> bool" where
  "includesText [] sub = (sub = [])"
| "includesText (c # cs) sub = (startsWith (c # cs) sub \<or> includesText cs sub)"

definition hintScore :: "string list \<Rightarrow> string \<Rightarrow> nat" where
  "hintScore hints header = countIf (\<lambda>hint. includesText (toLowerCase header) hint) hints"

definition hasNumeric :: "RawRow list \<Rightarrow> string \<Rightarrow> bool" where
  "hasNumeric rows header = list_ex (\<lambda>row. numberish (cellText row header)) rows"

definition numericDensity :: "RawRow list \<Rightarrow> string \<Rightarrow> nat" where
  "numericDensity rows header = countIf (\<lambda>row. numberish (cellText row header)) rows"

definition weightedScore :: "RawRow list \<Rightarrow> string list \<Rightarrow> string \<Rightarrow> nat" where
  "weightedScore rows hints header = hintScore hints header * 2 + numericDensity rows header"

definition metricStep :: "RawRow list \<Rightarrow> string list \<Rightarrow> (string \<times> nat) option \<Rightarrow> string \<Rightarrow> (string \<times> nat) option" where
  "metricStep rows hints best header =
     (if \<not> hasNumeric rows header then best
      else if hintScore hints header = 0 \<and> best \<noteq> None then best
      else
        (case best of
           None \<Rightarrow> Some (header, weightedScore rows hints header)
         | Some (bh, bscore) \<Rightarrow>
             if weightedScore rows hints header > bscore
             then Some (header, weightedScore rows hints header) else best))"

definition bestColumn :: "RawRow list \<Rightarrow> string list \<Rightarrow> string list \<Rightarrow> (string \<times> nat) option" where
  "bestColumn rows hints available = foldl (metricStep rows hints) None available"

type_synonym selections = "MetricKey \<Rightarrow> string option"

definition selectMetric :: "RawRow list \<Rightarrow> string list \<times> selections \<Rightarrow> MetricKey \<Rightarrow> string list \<times> selections" where
  "selectMetric rows st metric =
     (case bestColumn rows (metricHints metric) (fst st) of
        None \<Rightarrow> st
      | Some (header, score) \<Rightarrow> (setDelete (fst st) header, (snd st)(metric \<mapsto> header)))"

definition fallbackTransactions :: "RawRow list \<Rightarrow> string list \<times> selections \<Rightarrow> selections" where
  "fallbackTransactions rows st =
     (if truthyText (snd st Transactions) then snd st
      else
        (case find (\<lambda>header. length rows < 3 * numericDensity rows header) (fst st) of
           None \<Rightarrow> snd st
         | Some header \<Rightarrow> (snd st)(Transactions \<mapsto> header)))"

definition detectMetricColumns :: "RawRow list \<Rightarrow> string list \<Rightarrow> selections" where
  "detectMetricColumns rows headers =
     fallbackTransactions rows (foldl (selectMetric rows) (newSet headers, Map.empty) metricKeys)"

lemma countIf_acc: "foldl (\<lambda>acc x. if p x then acc + 1 else acc) n xs = n + length (filter p xs)"
  for n :: nat
  by (induction xs arbitrary: n) simp_all

lemma countIf_filter: "countIf p xs = length (filter p xs)"
  by (simp add: countIf_def countIf_acc)

lemma countIf_pos: "0 < countIf p xs \<longleftrightarrow> (\<exists>x \<in> set xs. p x)"
  by (simp add: countIf_filter filter_empty_conv)

lemma hasNumeric_density: "hasNumeric rows c \<longleftrightarrow> 0 < numericDensity rows c"
  by (simp add: hasNumeric_def numericDensity_def countIf_pos list_ex_iff)

text \<open>
  The state of the scan after the columns \<open>pre\<close>: nothing is held exactly when no column
  so far has a numeric-looking cell; a held column is one of \<open>pre\<close>, has such a cell, is held
  with its score, is the first such column or matches a hint, and no column so far that
  is the first such column or matches a hint has a higher score.
\<close>

definition scanned :: "RawRow list \<Rightarrow> string list \<Rightarrow> string list \<Rightarrow> (string \<times> nat) option \<Rightarrow> bool" where
  "scanned rows hints pre best =
     (case best of
        None \<Rightarrow> \<forall>c \<in> set pre. \<not> hasNumeric rows c
      | Some (b, s) \<Rightarrow>
          b \<in> set pre \<and> hasNumeric rows b \<and> s = weightedScore rows hints b
          \<and> (find (hasNumeric rows) pre = Some b \<or> 0 < hintScore hints b)
          \<and> (\<forall>c \<in> set pre. hasNumeric rows c
                \<and> (find (hasNumeric rows) pre = Some c \<or> 0 < hintScore hints c)
                \<longrightarrow> weightedScore rows hints c \<le> s))"

lemma find_append:
  "find p (xs @ ys) = (case find p xs of None \<Rightarrow> find p ys | Some x \<Rightarrow> Some x)"
  by (induction xs) simp_all

lemma find_None_iff': "find p xs = None \<longleftrightarrow> (\<forall>x \<in> set xs. \<not> p x)"
  by (induction xs) simp_all

lemma find_Some_set: "find p xs = Some x \<Longrightarrow> x \<in> set xs \<and> p x"
  by (induction xs) (auto split: if_splits)

lemma scanned_step:
  assumes "scanned rows hints pre best"
  shows "scanned rows hints (pre @ [x]) (metricStep rows hints best x)"
proof (cases best)
  case None
  then have no: "\<forall>c \<in> set pre. \<not> hasNumeric rows c" using assms by (simp add: scanned_def)
  then have fn: "find (hasNumeric rows) pre = None" by (simp add: find_None_iff')
  show ?thesis
    using None no by (auto simp: scanned_def metricStep_def find_append fn)
next
  case (Some p)
  obtain b s where p: "p = (b, s)" by (cases p)
  from assms Some p have inv:
    "b \<in> set pre" "hasNumeric rows b" "s = weightedScore rows hints b"
    "find (hasNumeric rows) pre = Some b \<or> 0 < hintScore hints b"
    "\<forall>c \<in> set pre. hasNumeric rows c
        \<and> (find (hasNumeric rows) pre = Some c \<or> 0 < hintScore hints c)
        \<longrightarrow> weightedScore rows hints c \<le> s"
    by (auto simp: scanned_def)
  obtain f where f: "find (hasNumeric rows) pre = Some f"
    using inv(1,2) by (cases "find (hasNumeric rows) pre") (auto simp: find_None_iff')
  have fa: "find (hasNumeric rows) (pre @ [x]) = Some f" by (simp add: find_append f)
  have fm: "f \<in> set pre" using find_Some_set [OF f] by simp
  show ?thesis
    using inv f fm unfolding Some p
    by (auto simp: scanned_def metricStep_def fa)
qed

lemma scanned_foldl:
  "scanned rows hints pre best \<Longrightarrow>
   scanned rows hints (pre @ xs) (foldl (metricStep rows hints) best xs)"
proof (induction xs arbitrary: pre best)
  case Nil
  then show ?case by simp
next
  case (Cons x xs)
  from Cons.prems have "scanned rows hints (pre @ [x]) (metricStep rows hints best x)"
    by (rule scanned_step)
  from Cons.IH [OF this] show ?case by simp
qed

lemma scanned_bestColumn: "scanned rows hints available (bestColumn rows hints available)"
  using scanned_foldl [of rows hints "[]" None available]
  by (simp add: bestColumn_def scanned_def)


text \<open>\<open>remainingBefore rows headers k\<close> is the set \<^verbatim>\<open>available\<close> when the loop reaches key \<open>k\<close>.\<close>

definition remainingBefore :: "RawRow list \<Rightarrow> string list \<Rightarrow> MetricKey \<Rightarrow> string list" where
  "remainingBefore rows headers k =
     fst (foldl (selectMetric rows) (newSet headers, Map.empty) (takeWhile (\<lambda>m. m \<noteq> k) metricKeys))"

lemma selectMetric_other: "k' \<noteq> k \<Longrightarrow> snd (selectMetric rows st k') k = snd st k"
  by (simp add: selectMetric_def split: option.splits prod.splits)

lemma selectMetric_same:
  "snd (selectMetric rows st k) k =
     (case bestColumn rows (metricHints k) (fst st) of None \<Rightarrow> snd st k | Some (b, s) \<Rightarrow> Some b)"
  by (simp add: selectMetric_def split: option.splits prod.splits)

lemma foldl_selectMetric_other:
  "k \<notin> set ks \<Longrightarrow> snd (foldl (selectMetric rows) st ks) k = snd st k"
  by (induction ks arbitrary: st) (auto simp: selectMetric_other)

lemma loop_selection:
  assumes "metricKeys = before @ k # after" "k \<notin> set before" "k \<notin> set after"
  shows "snd (foldl (selectMetric rows) (newSet headers, Map.empty) metricKeys) k =
         map_option fst (bestColumn rows (metricHints k)
           (fst (foldl (selectMetric rows) (newSet headers, Map.empty) before)))"
proof -
  define st where "st = foldl (selectMetric rows) (newSet headers, Map.empty) before"
  have n: "snd st k = None" unfolding st_def using assms(2) by (simp add: foldl_selectMetric_other)
  have "snd (foldl (selectMetric rows) (newSet headers, Map.empty) metricKeys) k =
        snd (foldl (selectMetric rows) (selectMetric rows st k) after) k"
    by (simp add: assms(1) st_def)
  also have "\<dots> = snd (selectMetric rows st k) k" using assms(3) by (rule foldl_selectMetric_other)
  also have "\<dots> = map_option fst (bestColumn rows (metricHints k) (fst st))"
    by (simp add: selectMetric_same n split: option.splits)
  finally show ?thesis by (simp add: st_def)
qed

lemma metricKeys_split:
  "\<exists>after. metricKeys = takeWhile (\<lambda>m. m \<noteq> k) metricKeys @ k # after
     \<and> k \<notin> set (takeWhile (\<lambda>m. m \<noteq> k) metricKeys) \<and> k \<notin> set after"
  by (cases k) (simp_all add: metricKeys_def)

lemma loop_selection_remaining:
  "snd (foldl (selectMetric rows) (newSet headers, Map.empty) metricKeys) k =
     map_option fst (bestColumn rows (metricHints k) (remainingBefore rows headers k))"
proof -
  obtain after where a: "metricKeys = takeWhile (\<lambda>m. m \<noteq> k) metricKeys @ k # after"
    "k \<notin> set (takeWhile (\<lambda>m. m \<noteq> k) metricKeys)" "k \<notin> set after"
    using metricKeys_split [of k] by blast
  show ?thesis unfolding remainingBefore_def by (rule loop_selection [OF a])
qed

lemma fallback_other: "k \<noteq> Transactions \<Longrightarrow> fallbackTransactions rows st k = snd st k"
  by (simp add: fallbackTransactions_def split: option.splits)

lemma detectMetricColumns_other:
  "k \<noteq> Transactions \<Longrightarrow>
   detectMetricColumns rows headers k =
     map_option fst (bestColumn rows (metricHints k) (remainingBefore rows headers k))"
  by (simp add: detectMetricColumns_def fallback_other loop_selection_remaining)


lemma fallback_truthy:
  "truthyText (snd st Transactions) \<Longrightarrow> fallbackTransactions rows st = snd st"
  by (simp add: fallbackTransactions_def)

lemma setDelete_subset: "set (setDelete s x) \<subseteq> set s"
  by (auto simp: setDelete_def)

lemma selectMetric_subset: "set (fst (selectMetric rows st k)) \<subseteq> set (fst st)"
  using setDelete_subset by (auto simp: selectMetric_def split: option.splits prod.splits)

lemma selectMetric_None:
  "bestColumn rows (metricHints k) (fst st) = None \<Longrightarrow> selectMetric rows st k = st"
  by (simp add: selectMetric_def)

text \<open>
  \<open>bestFor\<close> is the value of \<^verbatim>\<open>best\<close> after the scan for key \<open>k\<close>. A candidate for \<open>k\<close> is a
  column not yet claimed that has a numeric-looking cell and is the first such column or
  holds a hint of \<open>k\<close> in its name.
\<close>

definition bestFor :: "RawRow list \<Rightarrow> string list \<Rightarrow> MetricKey \<Rightarrow> (string \<times> nat) option" where
  "bestFor rows headers k = bestColumn rows (metricHints k) (remainingBefore rows headers k)"

definition candidate :: "RawRow list \<Rightarrow> string list \<Rightarrow> MetricKey \<Rightarrow> string \<Rightarrow> bool" where
  "candidate rows headers k c =
     (c \<in> set (remainingBefore rows headers k) \<and> hasNumeric rows c
      \<and> (find (hasNumeric rows) (remainingBefore rows headers k) = Some c
          \<or> 0 < hintScore (metricHints k) c))"

lemma loop_selection_bestFor:
  "snd (foldl (selectMetric rows) (newSet headers, Map.empty) metricKeys) k =
     map_option fst (bestFor rows headers k)"
  by (simp only: loop_selection_remaining bestFor_def)

lemma remainingBefore_Transactions:
  "foldl (selectMetric rows) (newSet headers, Map.empty) metricKeys =
   selectMetric rows
     (foldl (selectMetric rows) (newSet headers, Map.empty) (takeWhile (\<lambda>m. m \<noteq> Transactions) metricKeys))
     Transactions"
  by (simp add: metricKeys_def)

lemma detectMetricColumns_Transactions_None:
  assumes "bestFor rows headers Transactions = None"
  shows "detectMetricColumns rows headers Transactions = None"
proof -
  define st4 where "st4 = foldl (selectMetric rows) (newSet headers, Map.empty)
      (takeWhile (\<lambda>m. m \<noteq> Transactions) metricKeys)"
  have b: "bestColumn rows (metricHints Transactions) (fst st4) = None"
    using assms by (simp add: bestFor_def remainingBefore_def st4_def)
  have st5: "foldl (selectMetric rows) (newSet headers, Map.empty) metricKeys = st4"
    unfolding remainingBefore_Transactions st4_def [symmetric] using b by (rule selectMetric_None)
  have sel: "snd st4 Transactions = None"
    using loop_selection_bestFor [of rows headers Transactions] assms
    by (simp add: st5)
  have "scanned rows (metricHints Transactions) (fst st4) None"
    using scanned_bestColumn [of rows "metricHints Transactions" "fst st4"] b by simp
  then have "\<forall>c \<in> set (fst st4). numericDensity rows c = 0"
    by (simp add: scanned_def hasNumeric_density)
  then have "find (\<lambda>header. length rows < 3 * numericDensity rows header) (fst st4) = None"
    by (simp add: find_None_iff')
  then show ?thesis
    by (simp add: detectMetricColumns_def st5 fallbackTransactions_def sel)
qed

lemma detectMetricColumns_bestFor:
  assumes "k \<noteq> Transactions \<or> (\<forall>s. bestFor rows headers k \<noteq> Some ([], s))"
  shows "detectMetricColumns rows headers k = map_option fst (bestFor rows headers k)"
proof (cases "k = Transactions")
  case False
  then show ?thesis by (simp add: detectMetricColumns_other bestFor_def)
next
  case True
  show ?thesis
  proof (cases "bestFor rows headers Transactions")
    case None
    then show ?thesis using True by (simp add: detectMetricColumns_Transactions_None)
  next
    case (Some p)
    obtain b s where p: "p = (b, s)" by (cases p)
    have "b \<noteq> []" using assms True Some p by auto
    then have "truthyText (snd (foldl (selectMetric rows) (newSet headers, Map.empty) metricKeys) Transactions)"
      using Some p by (simp add: loop_selection_bestFor truthyText_def)
    then show ?thesis
      unfolding True detectMetricColumns_def
      by (simp add: fallback_truthy loop_selection_bestFor)
  qed
qed

text \<open>The records of the specification's scenario A, and two records with two columns.\<close>

definition rowsA :: "RawRow list" where
  "rowsA = [[(''Date'', ''2024-01-01''), (''Total Sales'', ''$100.00''), (''Net Sales'', ''$90.00''),
             (''Discounts'', ''$5.00''), (''Tip'', ''$10.00''), (''Orders'', ''10'')],
            [(''Date'', ''2024-01-03''), (''Total Sales'', ''$200.00''), (''Net Sales'', ''$180.00''),
             (''Discounts'', ''$0.00''), (''Tip'', ''$30.00''), (''Orders'', ''15'')]]"


definition rowsAB :: "RawRow list" where
  "rowsAB = [[(''A'', ''1''), (''B'', ''2'')], [(''A'', ''x''), (''B'', ''3'')]]"

text \<open>
  Claim C1, amended: for every metric key the loop selects the column held after the scan
  (for transactions: unless that column has the empty name, which the fallback may
  replace). No column is held exactly when no unclaimed column has a numeric-looking cell.
  The held column is a candidate and has the maximum score
  \<open>2 * hints + numeric-looking cells\<close> among the candidates: the first unclaimed column with
  a numeric-looking cell and every unclaimed column with such a cell and a hint in its name.
  So a column with a hint and a high numeric density is never outranked by a column of
  lower score.
\<close>

theorem detectMetricColumns_choice:
  "(k \<noteq> Transactions \<or> (\<forall>s. bestFor rows headers k \<noteq> Some ([], s))
      \<longrightarrow> detectMetricColumns rows headers k = map_option fst (bestFor rows headers k))
   \<and> (bestFor rows headers k = None
        \<longleftrightarrow> (\<forall>c \<in> set (remainingBefore rows headers k). \<not> hasNumeric rows c))
   \<and> (bestFor rows headers k = Some (b, s)
        \<longrightarrow> candidate rows headers k b \<and> s = weightedScore rows (metricHints k) b
            \<and> (\<forall>c. candidate rows headers k c \<longrightarrow> weightedScore rows (metricHints k) c \<le> s))"
proof -
  have sc: "scanned rows (metricHints k) (remainingBefore rows headers k) (bestFor rows headers k)"
    unfolding bestFor_def by (rule scanned_bestColumn)
  have a: "k \<noteq> Transactions \<or> (\<forall>s. bestFor rows headers k \<noteq> Some ([], s))
      \<longrightarrow> detectMetricColumns rows headers k = map_option fst (bestFor rows headers k)"
    using detectMetricColumns_bestFor by blast
  have b: "bestFor rows headers k = None
        \<longleftrightarrow> (\<forall>c \<in> set (remainingBefore rows headers k). \<not> hasNumeric rows c)"
    using sc by (cases "bestFor rows headers k") (auto simp: scanned_def)
  have c: "bestFor rows headers k = Some (b, s)
        \<longrightarrow> candidate rows headers k b \<and> s = weightedScore rows (metricHints k) b
            \<and> (\<forall>c. candidate rows headers k c \<longrightarrow> weightedScore rows (metricHints k) c \<le> s)"
    using sc by (auto simp: scanned_def candidate_def)
  from a b c show ?thesis by blast
qed

text \<open>
  Claim C1 as stated fails: a column without a hint in its name is looked at only while no
  column is held. Here column \<open>A\<close> (one numeric-looking cell) is held first, column \<open>B\<close> (two
  such cells, no hint) is skipped, and \<open>A\<close> is selected for gross under the higher score of \<open>B\<close>.
\<close>

theorem detectMetricColumns_max_counterexample:
  "detectMetricColumns rowsAB [''A'', ''B''] Gross = Some ''A''
   \<and> ''B'' \<in> set (remainingBefore rowsAB [''A'', ''B''] Gross) \<and> hasNumeric rowsAB ''B''
   \<and> weightedScore rowsAB (metricHints Gross) ''A'' < weightedScore rowsAB (metricHints Gross) ''B''"
  by code_simp

theorem detectMetricColumns_choice_witness:
  "bestFor rowsA (ObjectKeys (hd rowsA)) Gross = Some (''Total Sales'', 4)
   \<and> detectMetricColumns rowsA (ObjectKeys (hd rowsA)) Gross = Some ''Total Sales''
   \<and> candidate rowsA (ObjectKeys (hd rowsA)) Gross ''Total Sales''
   \<and> candidate rowsA (ObjectKeys (hd rowsA)) Gross ''Date''
   \<and> weightedScore rowsA (metricHints Gross) ''Date'' \<le> 4"
proof -
  have b: "bestFor rowsA (ObjectKeys (hd rowsA)) Gross = Some (''Total Sales'', 4)" by code_simp
  have c: "candidate rowsA (ObjectKeys (hd rowsA)) Gross ''Date''" by code_simp
  show ?thesis
    using b c detectMetricColumns_choice [of Gross rowsA "ObjectKeys (hd rowsA)" "''Total Sales''" 4]
    by simp
qed

definition claimedApart :: "string list \<times> selections \<Rightarrow> bool" where
  "claimedApart st =
     (\<forall>k c. snd st k = Some c \<longrightarrow> c \<notin> set (fst st) \<and> (\<forall>k'. k' \<noteq> k \<longrightarrow> snd st k' \<noteq> Some c))"

lemma bestColumn_member: "bestColumn rows hints available = Some (b, s) \<Longrightarrow> b \<in> set available"
  using scanned_bestColumn [of rows hints available] by (simp add: scanned_def)

lemma claimedApart_step:
  assumes "claimedApart st"
  shows "claimedApart (selectMetric rows st k)"
proof (cases "bestColumn rows (metricHints k) (fst st)")
  case None
  then show ?thesis using assms by (simp add: selectMetric_None)
next
  case (Some p)
  obtain b s where p: "p = (b, s)" by (cases p)
  have m: "b \<in> set (fst st)" using Some p by (intro bestColumn_member) simp
  have e: "selectMetric rows st k = (setDelete (fst st) b, (snd st)(k \<mapsto> b))"
    by (simp add: selectMetric_def Some p)
  show ?thesis
    unfolding e claimedApart_def using assms m
    by (auto simp: claimedApart_def setDelete_def)
qed

lemma claimedApart_foldl:
  "claimedApart st \<Longrightarrow> claimedApart (foldl (selectMetric rows) st ks)"
  by (induction ks arbitrary: st) (simp_all add: claimedApart_step)

lemma claimedApart_fallback:
  assumes "claimedApart st" "k \<noteq> k'" "fallbackTransactions rows st k = Some c"
  shows "fallbackTransactions rows st k' \<noteq> Some c"
proof (cases "truthyText (snd st Transactions)")
  case True
  then show ?thesis using assms by (auto simp: fallback_truthy claimedApart_def)
next
  case False
  show ?thesis
  proof (cases "find (\<lambda>header. length rows < 3 * numericDensity rows header) (fst st)")
    case None
    then have "fallbackTransactions rows st = snd st" using False by (simp add: fallbackTransactions_def)
    then show ?thesis using assms by (auto simp: claimedApart_def)
  next
    case (Some h)
    then have h: "h \<in> set (fst st)" using find_Some_set by fastforce
    have e: "fallbackTransactions rows st = (snd st)(Transactions \<mapsto> h)"
      using False Some by (simp add: fallbackTransactions_def)
    show ?thesis
      using assms h unfolding e claimedApart_def by (auto split: if_splits)
  qed
qed

text \<open>
  Claim C2: the date column is never to be selected for a metric key as well. The code
  removes each claimed metric column from the columns still offered, but leaves the date
  column among them: here \<open>Date\<close> is the date column and, no column name holding a
  discount hint, also the column selected for discounts.
\<close>

definition rowsD :: "RawRow list" where
  "rowsD = [[(''Date'', ''2024-01-01''), (''Gross'', ''5''), (''Net'', ''4'')]]"

theorem date_column_reused_counterexample:
  "detectDateColumn isoHost rowsD (ObjectKeys (hd rowsD)) = Some ''Date''
   \<and> detectMetricColumns rowsD (ObjectKeys (hd rowsD)) Discounts = Some ''Date''"
  by code_simp

text \<open>No column is selected for two different metric keys.\<close>

lemma detectMetricColumns_distinct:
  "k \<noteq> k' \<Longrightarrow> detectMetricColumns rows headers k = Some c \<Longrightarrow>
   detectMetricColumns rows headers k' \<noteq> Some c"
proof -
  assume a: "k \<noteq> k'" "detectMetricColumns rows headers k = Some c"
  have "claimedApart (newSet headers, Map.empty)" by (simp add: claimedApart_def)
  then have "claimedApart (foldl (selectMetric rows) (newSet headers, Map.empty) metricKeys)"
    by (rule claimedApart_foldl)
  from claimedApart_fallback [OF this a(1)] a(2) show ?thesis
    by (simp add: detectMetricColumns_def)
qed

lemma detectMetricColumns_distinct_example:
  "Gross \<noteq> Net \<and> detectMetricColumns rowsA (ObjectKeys (hd rowsA)) Gross = Some ''Total Sales''
   \<and> detectMetricColumns rowsA (ObjectKeys (hd rowsA)) Net \<noteq> Some ''Total Sales''"
proof -
  have g: "detectMetricColumns rowsA (ObjectKeys (hd rowsA)) Gross = Some ''Total Sales''"
    by code_simp
  have n: "Gross \<noteq> Net" by simp
  from detectMetricColumns_distinct [OF n g] g show ?thesis by simp
qed

end
